theory Spec2Isabelle
  imports Main
begin

section \<open>Ordinary objects used as dictionaries\<close>

text \<open>
  The dictionaries of the sources are ordinary JavaScript objects with string keys. An
  object is modelled by the list of its own properties in the order in which
  \<^verbatim>\<open>Object.keys\<close> and \<^verbatim>\<open>forEach\<close> enumerate them: the keys that are array
  indices (canonical decimal numerals below \<open>2^32 - 1\<close>) in ascending numeric order first,
  then every other key in the order of its creation.
\<close>

type_synonym 'v obj = "(string \<times> 'v) list"

definition is_digit :: "char \<Rightarrow> bool" where
  "is_digit c \<longleftrightarrow> (48::nat) \<le> of_char c \<and> of_char c \<le> (57::nat)"

definition digit_val :: "char \<Rightarrow> int" where
  "digit_val c = of_char c - 48"

definition str_val :: "string \<Rightarrow> int" where
  "str_val s = foldl (\<lambda>n c. 10 * n + digit_val c) 0 s"

definition is_array_index :: "string \<Rightarrow> bool" where
  "is_array_index s \<longleftrightarrow>
     s \<noteq> [] \<and> list_all is_digit s \<and> (s = ''0'' \<or> hd s \<noteq> CHR ''0'') \<and> str_val s < 4294967295"

text \<open>\<open>goes_before k k'\<close>: a newly created key \<open>k\<close> is enumerated before the existing key \<open>k'\<close>.\<close>

definition goes_before :: "string \<Rightarrow> string \<Rightarrow> bool" where
  "goes_before k k' \<longleftrightarrow> is_array_index k \<and> (\<not> is_array_index k' \<or> str_val k < str_val k')"

fun insert_new :: "string \<Rightarrow> 'v \<Rightarrow> 'v obj \<Rightarrow> 'v obj" where
  "insert_new k v [] = [(k, v)]"
| "insert_new k v ((k', v') # es) =
     (if goes_before k k' then (k, v) # (k', v') # es else (k', v') # insert_new k v es)"

definition objKeys :: "'v obj \<Rightarrow> string list" where
  "objKeys ob = map fst ob"

text \<open>
  \<^verbatim>\<open>ob[k] = v\<close> on an object made by \<^verbatim>\<open>{}\<close>: an own property keeps its place and
  takes the value. Otherwise the assignment looks at the prototype, \<^verbatim>\<open>Object.prototype\<close>,
  which has one property with a setter, \<^verbatim>\<open>__proto__\<close>: for that key the setter runs (it
  replaces the prototype when \<open>v\<close> is an object and does nothing otherwise) and no own
  property is created. For every other key a new own property is created. The prototype
  itself is not part of the model, so the theorems on whole dictionaries leave that key out.
\<close>

definition objSet :: "'v obj \<Rightarrow> string \<Rightarrow> 'v \<Rightarrow> 'v obj" where
  "objSet ob k v =
     (if k \<in> set (objKeys ob) then map (\<lambda>(k', v'). if k' = k then (k', v) else (k', v')) ob
      else if k = ''__proto__'' then ob
      else insert_new k v ob)"

definition no_proto_key :: "string list \<Rightarrow> bool" where
  "no_proto_key ks \<longleftrightarrow> ''__proto__'' \<notin> set ks"

text \<open>The enumeration order of a real object: keys are distinct, and no key would have
  been created in front of an earlier one.\<close>

fun key_ordered :: "string list \<Rightarrow> bool" where
  "key_ordered [] = True"
| "key_ordered (k # ks) = (list_all (\<lambda>k'. \<not> goes_before k' k) ks \<and> key_ordered ks)"

definition obj_wf :: "'v obj \<Rightarrow> bool" where
  "obj_wf ob \<longleftrightarrow> distinct (objKeys ob) \<and> key_ordered (objKeys ob)"

section \<open>The dictionary of the challenge: \<^verbatim>\<open>Dict<T>\<close>, \<^verbatim>\<open>mapDict\<close>, \<^verbatim>\<open>reduceDict\<close>\<close>

text \<open>
  \<^verbatim>\<open>type Dict<T> = { [anythingWeWant: string]: T | undefined }\<close>: a property may hold
  \<^verbatim>\<open>undefined\<close>. \<open>dictGet\<close> is \<^verbatim>\<open>dict[k]\<close> for the keys that \<open>mapDict\<close> reads, the own
  keys of \<^verbatim>\<open>dict\<close>; for a key that is neither an own key nor inherited the value is
  \<^verbatim>\<open>undefined\<close>.
\<close>

datatype 'a maybe = Undefined | Defined 'a

type_synonym 'a Dict = "'a maybe obj"

definition dictGet :: "'a Dict \<Rightarrow> string \<Rightarrow> 'a maybe" where
  "dictGet dict k = (case map_of dict k of None \<Rightarrow> Undefined | Some v \<Rightarrow> v)"

text \<open>
  \<^verbatim>\<open>
  export function mapDict<T, S>(dict: Dict<T>, fn: (arg: T, idx: number) => S): Dict<S> {
    const out: Dict<S> = {};
    Object.keys(dict).forEach((dKey, idx) => {
      let currentItem = dict[dKey];
      if (typeof currentItem !== "undefined") {
        out[dKey] = fn(currentItem, idx);
      }
    });
    return out;
  }
  \<close>
  The callback of \<^verbatim>\<open>forEach\<close> is \<open>mapDict_step\<close>; \<open>idx\<close> is the position of the key
  in \<^verbatim>\<open>Object.keys(dict)\<close>. The result type \<^verbatim>\<open>S\<close> of \<^verbatim>\<open>fn\<close> is any type, so
  \<^verbatim>\<open>fn\<close> may return \<^verbatim>\<open>undefined\<close>, which is then stored under the key.
\<close>

text \<open>\<^verbatim>\<open>xs.forEach(cb)\<close> calls \<open>cb\<close> with each element and its index, in order; the
  state \<open>s\<close> is what the callback mutates.\<close>

definition forEach :: "'k list \<Rightarrow> ('k \<times> nat \<Rightarrow> 's \<Rightarrow> 's) \<Rightarrow> 's \<Rightarrow> 's" where
  "forEach xs cb s = fold cb (zip xs [0 ..< length xs]) s"

definition mapDict_step ::
  "'a Dict \<Rightarrow> ('a maybe \<Rightarrow> nat \<Rightarrow> 'b maybe) \<Rightarrow> string \<times> nat \<Rightarrow> 'b Dict \<Rightarrow> 'b Dict" where
  "mapDict_step dict fn = (\<lambda>(dKey, idx) out.
     (let currentItem = dictGet dict dKey in
      if currentItem \<noteq> Undefined then objSet out dKey (fn currentItem idx) else out))"

definition mapDict :: "'a Dict \<Rightarrow> ('a maybe \<Rightarrow> nat \<Rightarrow> 'b maybe) \<Rightarrow> 'b Dict" where
  "mapDict dict fn = forEach (objKeys dict) (mapDict_step dict fn) []"

text \<open>
  The source calls \<^verbatim>\<open>mapDict({ a: "a", b: "b" }, (str) => str)\<close>: a callback that declares
  one parameter ignores the index it is called with. \<open>unary f\<close> is such a callback;
  \<open>identity\<close> is \<^verbatim>\<open>(str) => str\<close>.
\<close>

definition unary :: "('a maybe \<Rightarrow> 'b maybe) \<Rightarrow> 'a maybe \<Rightarrow> nat \<Rightarrow> 'b maybe" where
  "unary f = (\<lambda>arg idx. f arg)"

definition identity :: "'a maybe \<Rightarrow> nat \<Rightarrow> 'a maybe" where
  "identity str idx = str"

text \<open>Two more callbacks, used as concrete inputs: \<^verbatim>\<open>(x) => undefined\<close> and
  \<^verbatim>\<open>(x) => 1\<close>.\<close>

definition to_undefined :: "'a maybe \<Rightarrow> 'b maybe" where
  "to_undefined x = Undefined"

definition to_one :: "'a maybe \<Rightarrow> nat maybe" where
  "to_one x = Defined 1"

text \<open>The invariant of the specification's data model: no key holds \<^verbatim>\<open>undefined\<close>.\<close>

definition all_defined :: "'a Dict \<Rightarrow> bool" where
  "all_defined dict \<longleftrightarrow> list_all (\<lambda>(k, v). v \<noteq> Undefined) dict"

text \<open>What \<open>mapDict\<close> computes, entry by entry: the keys that hold a defined value, each with
  \<open>fn\<close> of its value and of its position among all the keys of \<open>dict\<close>.\<close>

definition mapped :: "'a Dict \<Rightarrow> ('a maybe \<Rightarrow> nat \<Rightarrow> 'b maybe) \<Rightarrow> 'b Dict" where
  "mapped dict fn =
     map (\<lambda>((k, v), i). (k, fn v i))
       (filter (\<lambda>((k, v), i). v \<noteq> Undefined) (zip dict [0 ..< length dict]))"

text \<open>
  \<^verbatim>\<open>
  // Array.prototype.reduce, but for Dict
  export function reduceDict() {}
  \<close>
  The function declares no parameter and has an empty body: whatever arguments a call
  passes are ignored, and the call returns \<^verbatim>\<open>undefined\<close>.
\<close>

definition reduceDict :: "'args \<Rightarrow> 'r maybe" where
  "reduceDict args = Undefined"

text \<open>The fold that the specification describes for \<open>reduce\<close>, in its words:
  \<open>fn (acc, value, key)\<close> over the entries in iteration order, each entry once, starting
  from \<open>initial\<close>.\<close>

definition reduce_spec :: "('acc \<Rightarrow> 'v \<Rightarrow> string \<Rightarrow> 'acc) \<Rightarrow> 'acc \<Rightarrow> 'v obj \<Rightarrow> 'acc" where
  "reduce_spec fn initial dict = foldl (\<lambda>acc (k, v). fn acc v k) initial dict"

section \<open>\<^verbatim>\<open>arrayToDict\<close>\<close>

text \<open>
  \<^verbatim>\<open>
  function arrayToDict<T extends { id: string }>(array: T[]): { [k: string]: T } {
    const out: { [k: string]: T } = {};
    array.forEach((val) => {
      out[val.id] = val;
    });
    return out;
  }
  \<close>
  \<^verbatim>\<open>T extends { id: string }\<close> is an extensible record with the field \<^verbatim>\<open>id\<close>
  (named \<open>id'\<close> here, \<open>id\<close> being the identity function of HOL).
\<close>

record has_id =
  id' :: string

definition arrayToDict :: "'m has_id_scheme list \<Rightarrow> 'm has_id_scheme obj" where
  "arrayToDict array = forEach array (\<lambda>(val, idx) out. objSet out (id' val) val) []"

section \<open>The same functions on a store\<close>

text \<open>
  Objects and arrays live in a store and are passed by reference. A store is the list of
  its cells, a reference is an index into it, and \<^verbatim>\<open>{}\<close> allocates a new cell at the
  end. The callbacks of \<^verbatim>\<open>forEach\<close> read \<^verbatim>\<open>dict\<close> and \<^verbatim>\<open>array\<close> through their
  references at every iteration, and write through the reference \<^verbatim>\<open>out\<close>. The
  functions read keys and write properties on object cells only, and read elements on
  array cells only, as their types say.
\<close>

datatype 'v cell = ObjCell "'v obj" | ArrCell "'v list"

type_synonym 'v heap = "'v cell list"

definition new_object :: "'v heap \<Rightarrow> 'v heap \<times> nat" where
  "new_object h = (h @ [ObjCell []], length h)"

definition heap_keys :: "'v heap \<Rightarrow> nat \<Rightarrow> string list" where
  "heap_keys h r = (case h ! r of ObjCell ob \<Rightarrow> objKeys ob | ArrCell xs \<Rightarrow> [])"

definition heap_get :: "'a maybe heap \<Rightarrow> nat \<Rightarrow> string \<Rightarrow> 'a maybe" where
  "heap_get h r k = (case h ! r of ObjCell ob \<Rightarrow> dictGet ob k | ArrCell xs \<Rightarrow> Undefined)"

definition heap_set :: "'v heap \<Rightarrow> nat \<Rightarrow> string \<Rightarrow> 'v \<Rightarrow> 'v heap" where
  "heap_set h r k v = (case h ! r of ObjCell ob \<Rightarrow> h[r := ObjCell (objSet ob k v)] | ArrCell xs \<Rightarrow> h)"

definition heap_elems :: "'v heap \<Rightarrow> nat \<Rightarrow> 'v list" where
  "heap_elems h r = (case h ! r of ArrCell xs \<Rightarrow> xs | ObjCell ob \<Rightarrow> [])"

definition mapDict_heap_step ::
  "nat \<Rightarrow> nat \<Rightarrow> ('a maybe \<Rightarrow> nat \<Rightarrow> 'a maybe) \<Rightarrow> string \<times> nat \<Rightarrow> 'a maybe heap \<Rightarrow> 'a maybe heap" where
  "mapDict_heap_step dict out fn = (\<lambda>(dKey, idx) h.
     (let currentItem = heap_get h dict dKey in
      if currentItem \<noteq> Undefined then heap_set h out dKey (fn currentItem idx) else h))"

definition mapDict_heap ::
  "'a maybe heap \<Rightarrow> nat \<Rightarrow> ('a maybe \<Rightarrow> nat \<Rightarrow> 'a maybe) \<Rightarrow> 'a maybe heap \<times> nat" where
  "mapDict_heap h dict fn =
     (let (h0, out) = new_object h in
      (forEach (heap_keys h0 dict) (mapDict_heap_step dict out fn) h0, out))"

text \<open>\<^verbatim>\<open>array.forEach\<close> visits the indices below the length the array has at the call and
  reads the element at each index when it gets there.\<close>

definition arrayToDict_heap_step ::
  "nat \<Rightarrow> nat \<Rightarrow> nat \<times> nat \<Rightarrow> 'm has_id_scheme heap \<Rightarrow> 'm has_id_scheme heap" where
  "arrayToDict_heap_step array out = (\<lambda>(i, idx) h.
     (let val = heap_elems h array ! i in heap_set h out (id' val) val))"

definition arrayToDict_heap ::
  "'m has_id_scheme heap \<Rightarrow> nat \<Rightarrow> 'm has_id_scheme heap \<times> nat" where
  "arrayToDict_heap h array =
     (let (h0, out) = new_object h in
      (forEach [0 ..< length (heap_elems h0 array)] (arrayToDict_heap_step array out) h0, out))"

section \<open>\<^verbatim>\<open>resolveOrTimeout\<close>\<close>

text \<open>
  \<^verbatim>\<open>
  function resolveOrTimeout<T>(promise: Promise<T>, timeout: number): Promise<T> {
    return new Promise<T>((resolve, reject) => {
      // start the timeout, reject when it triggers
      const task = setTimeout(() => reject("time up!"), timeout);

      promise.then((val) => {
        // cancel the timeout
        clearTimeout(task);

        // resolve with the value
        resolve(val);
      });
    });
  }
  \<close>
  The argument \<^verbatim>\<open>promise\<close> is given by how it settles: fulfilled with a value, rejected
  with a reason, or never. A rejection reason is any value: a string, as in the timer
  callback, or something else.

  The executor runs at once: it schedules the timer and registers one reaction on
  \<^verbatim>\<open>promise\<close>, for fulfilment only. After that the event loop runs callbacks one at a
  time, in an order that the model takes as a list of events: \<open>PromiseSettled\<close> when the
  wrapped promise settles and its reaction job runs, \<open>TimerFired\<close> when the host runs the
  timer callback. Wall-clock time is not modelled, only this order.

  \<^verbatim>\<open>promise.then\<close> returns a promise of its own, \<open>chained\<close>, which the code drops. It
  is fulfilled with \<^verbatim>\<open>undefined\<close> when the fulfilment handler has run, and rejected with
  the reason of \<^verbatim>\<open>promise\<close> when \<^verbatim>\<open>promise\<close> is rejected, there being no rejection
  handler. Nothing is ever registered on it, so its rejection is an unhandled rejection,
  which the host reports.

  A promise settles once, so a second \<open>PromiseSettled\<close> changes nothing; the host runs the
  callback of a timer only while it is scheduled; \<^verbatim>\<open>resolve\<close> and \<^verbatim>\<open>reject\<close> of the
  returned promise act only while it is pending.
\<close>

datatype 'e reason = Str string | Err 'e

datatype ('a, 'e) computation = Fulfils 'a | Fails "'e reason" | Never

datatype event = PromiseSettled | TimerFired

datatype timer = Scheduled | Cleared | Fired

datatype ('a, 'e) outcome = Pending | Resolved 'a | Rejected "'e reason"

record ('a, 'e) race =
  promise :: "('a, 'e) computation"
  settled :: bool
  task :: timer
  delay :: nat
  result :: "('a, 'e) outcome"
  chained :: "(unit, 'e) outcome"

definition clearTimeout :: "('a, 'e) race \<Rightarrow> ('a, 'e) race" where
  "clearTimeout s = (if task s = Scheduled then s\<lparr>task := Cleared\<rparr> else s)"

definition resolve :: "'a \<Rightarrow> ('a, 'e) race \<Rightarrow> ('a, 'e) race" where
  "resolve val s = (if result s = Pending then s\<lparr>result := Resolved val\<rparr> else s)"

definition reject :: "'e reason \<Rightarrow> ('a, 'e) race \<Rightarrow> ('a, 'e) race" where
  "reject r s = (if result s = Pending then s\<lparr>result := Rejected r\<rparr> else s)"

text \<open>The state when \<open>resolveOrTimeout\<close> returns.\<close>

definition resolveOrTimeout :: "('a, 'e) computation \<Rightarrow> nat \<Rightarrow> ('a, 'e) race" where
  "resolveOrTimeout p timeout =
     \<lparr>promise = p, settled = False, task = Scheduled, delay = timeout, result = Pending,
      chained = Pending\<rparr>"

fun step :: "('a, 'e) race \<Rightarrow> event \<Rightarrow> ('a, 'e) race" where
  "step s PromiseSettled =
     (if settled s then s
      else case promise s of
        Fulfils val \<Rightarrow>
          (resolve val (clearTimeout (s\<lparr>settled := True\<rparr>)))\<lparr>chained := Resolved ()\<rparr>
      | Fails r \<Rightarrow> s\<lparr>settled := True, chained := Rejected r\<rparr>
      | Never \<Rightarrow> s)"
| "step s TimerFired =
     (if task s = Scheduled then reject (Str ''time up!'') (s\<lparr>task := Fired\<rparr>) else s)"

definition run :: "event list \<Rightarrow> ('a, 'e) race \<Rightarrow> ('a, 'e) race" where
  "run evs s = foldl step s evs"

text \<open>An unhandled rejection: the dropped promise is rejected.\<close>

definition unhandled :: "('a, 'e) race \<Rightarrow> bool" where
  "unhandled s = (case chained s of Rejected r \<Rightarrow> True | Resolved u \<Rightarrow> False | Pending \<Rightarrow> False)"

text \<open>The number of steps of a run at which the state of the returned promise changes.\<close>

fun transitions :: "('a, 'e) race \<Rightarrow> event list \<Rightarrow> nat" where
  "transitions s [] = 0"
| "transitions s (ev # evs) =
     (if result (step s ev) \<noteq> result s then 1 else 0) + transitions (step s ev) evs"

text \<open>The state machine of the specification, in its words: the first signal wins, a
  settlement of the computation giving \<open>Resolved\<close> or \<open>Rejected\<close> with its cause, the timer
  giving the timeout failure.\<close>

definition first_signal :: "('a, 'e) computation \<Rightarrow> event \<Rightarrow> ('a, 'e) outcome" where
  "first_signal p ev =
     (case ev of
        PromiseSettled \<Rightarrow>
          (case p of Fulfils val \<Rightarrow> Resolved val | Fails r \<Rightarrow> Rejected r | Never \<Rightarrow> Pending)
      | TimerFired \<Rightarrow> Rejected (Str ''time up!''))"

section \<open>Properties of objects\<close>

lemma insert_new_append:
  "list_all (\<lambda>k'. \<not> goes_before k k') (map fst es) \<Longrightarrow> insert_new k v es = es @ [(k, v)]"
  by (induction es) auto

lemma set_insert_new: "set (insert_new k v es) = insert (k, v) (set es)"
  by (induction k v es rule: insert_new.induct) auto

lemma map_of_insert_new:
  "k \<notin> fst ` set es \<Longrightarrow> map_of (insert_new k v es) = (map_of es)(k \<mapsto> v)"
  by (induction es) (auto simp: fun_eq_iff)

lemma key_ordered_append:
  "key_ordered (xs @ ys) \<longleftrightarrow>
     key_ordered xs \<and> key_ordered ys \<and> (\<forall>x\<in>set xs. \<forall>y\<in>set ys. \<not> goes_before y x)"
  by (induction xs) (auto simp: list_all_iff)

lemma key_ordered_map_filter:
  "key_ordered (map fst es) \<Longrightarrow> key_ordered (map fst (filter P es))"
  by (induction es) (auto simp: list_all_iff)

lemma goes_before_trans:
  "goes_before k k' \<Longrightarrow> \<not> goes_before k'' k' \<Longrightarrow> \<not> goes_before k'' k"
  by (auto simp: goes_before_def)

lemma goes_before_asym: "goes_before k k' \<Longrightarrow> \<not> goes_before k' k"
  by (auto simp: goes_before_def)

lemma key_ordered_insert_new:
  "key_ordered (map fst es) \<Longrightarrow> key_ordered (map fst (insert_new k v es))"
proof (induction es)
  case Nil
  show ?case by simp
next
  case (Cons e es)
  obtain k' v' where e: "e = (k', v')" by (cases e)
  show ?case
  proof (cases "goes_before k k'")
    case True
    have "\<not> goes_before k'' k" if "k'' \<in> set (map fst es)" for k''
    proof -
      from Cons.prems that have "\<not> goes_before k'' k'" by (auto simp: e list_all_iff)
      with True show ?thesis by (rule goes_before_trans)
    qed
    with True Cons.prems show ?thesis
      by (simp add: e list_all_iff goes_before_asym)
  next
    case False
    with Cons show ?thesis
      by (auto simp: e list_all_iff set_insert_new)
  qed
qed

lemma objKeys_objSet:
  "k \<noteq> ''__proto__'' \<Longrightarrow> set (objKeys (objSet ob k v)) = insert k (set (objKeys ob))"
  by (force simp: objSet_def objKeys_def set_insert_new split: if_splits)

lemma map_of_update_in_place:
  "map_of (map (\<lambda>(k', v'). if k' = k then (k', v) else (k', v')) es) =
     (if k \<in> fst ` set es then (map_of es)(k \<mapsto> v) else map_of es)"
  by (induction es) (auto simp: fun_eq_iff)

lemma map_of_objSet: "k \<noteq> ''__proto__'' \<Longrightarrow> map_of (objSet ob k v) = (map_of ob)(k \<mapsto> v)"
  by (simp add: objSet_def objKeys_def map_of_update_in_place map_of_insert_new)

lemma fst_update_in_place:
  "fst \<circ> (\<lambda>(k', v'). if k' = k then (k', v) else (k', v')) = fst"
  by (auto simp: fun_eq_iff)

lemma obj_wf_objSet: "obj_wf ob \<Longrightarrow> obj_wf (objSet ob k v)"
proof (cases "k \<in> set (objKeys ob)")
  case True
  assume "obj_wf ob"
  with True show ?thesis
    by (simp add: obj_wf_def objSet_def objKeys_def fst_update_in_place)
next
  case False
  assume wf: "obj_wf ob"
  have "distinct (map fst (insert_new k v ob))"
    using wf False by (induction ob) (auto simp: obj_wf_def objKeys_def set_insert_new)
  with wf False show ?thesis
    by (simp add: obj_wf_def objSet_def objKeys_def key_ordered_insert_new)
qed

section \<open>Properties of \<open>mapDict\<close>\<close>

lemma mapped_snoc:
  "mapped (xs @ [(k, v)]) fn =
     mapped xs fn @ (if v \<noteq> Undefined then [(k, fn v (length xs))] else [])"
  by (simp add: mapped_def)

lemma zip_filter_fst:
  "length xs = length ys \<Longrightarrow>
   map (\<lambda>(x, i). g x) (filter (\<lambda>(x, i). P x) (zip xs ys)) = map g (filter P xs)"
  by (induction xs ys rule: list_induct2) auto

lemma objKeys_mapped:
  "objKeys (mapped m fn) = objKeys (filter (\<lambda>(k, v). v \<noteq> Undefined) m)"
proof -
  have "objKeys (mapped m fn) =
    map (\<lambda>(x, i). fst x)
      (filter (\<lambda>(x, i). (\<lambda>(k, v). v \<noteq> Undefined) x) (zip m [0 ..< length m]))"
    by (simp add: mapped_def objKeys_def case_prod_unfold comp_def)
  then show ?thesis by (simp add: zip_filter_fst objKeys_def)
qed

lemma keys_mapped_subset: "set (objKeys (mapped xs fn)) \<subseteq> set (objKeys xs)"
proof -
  have "set (objKeys (filter (\<lambda>(k, v). v \<noteq> Undefined) xs)) \<subseteq> set (objKeys xs)"
    by (auto simp: objKeys_def)
  then show ?thesis by (simp only: objKeys_mapped)
qed

lemma dictGet_distinct:
  "distinct (map fst d) \<Longrightarrow> (k, v) \<in> set d \<Longrightarrow> dictGet d k = v"
  by (simp add: dictGet_def)

lemma mapDict_prefix:
  "obj_wf (xs @ rest) \<Longrightarrow> no_proto_key (objKeys xs) \<Longrightarrow>
   forEach (objKeys xs) (mapDict_step (xs @ rest) fn) [] = mapped xs fn"
proof (induction xs arbitrary: rest rule: rev_induct)
  case Nil
  show ?case by (simp add: forEach_def mapped_def objKeys_def)
next
  case (snoc x xs)
  obtain k v where x: "x = (k, v)" by (cases x)
  from snoc.prems have wf: "obj_wf (xs @ (x # rest))" by simp
  from snoc.prems have np: "no_proto_key (objKeys xs)" and k: "k \<noteq> ''__proto__''"
    by (auto simp: no_proto_key_def objKeys_def x)
  have IH: "forEach (objKeys xs) (mapDict_step (xs @ x # rest) fn) [] = mapped xs fn"
    using snoc.IH [OF wf np] .
  have get: "dictGet ((xs @ [x]) @ rest) k = v"
    using snoc.prems by (intro dictGet_distinct) (auto simp: obj_wf_def objKeys_def x)
  have fresh: "k \<notin> set (objKeys (mapped xs fn))"
    using snoc.prems keys_mapped_subset [of xs fn] by (auto simp: obj_wf_def objKeys_def x)
  have ord: "list_all (\<lambda>k'. \<not> goes_before k k') (map fst (mapped xs fn))"
  proof -
    have "\<not> goes_before k a" if "a \<in> set (objKeys (mapped xs fn))" for a
    proof -
      from that keys_mapped_subset [of xs fn] have "a \<in> set (objKeys xs)" by blast
      with snoc.prems show ?thesis
        by (auto simp: obj_wf_def objKeys_def x key_ordered_append)
    qed
    then show ?thesis by (simp add: list_all_iff objKeys_def)
  qed
  have "forEach (objKeys (xs @ [x])) (mapDict_step ((xs @ [x]) @ rest) fn) [] =
        mapDict_step ((xs @ [x]) @ rest) fn (k, length xs) (mapped xs fn)"
    using IH by (simp add: forEach_def objKeys_def x)
  also have "\<dots> = mapped (xs @ [x]) fn"
    using get fresh ord k by (simp add: mapDict_step_def objSet_def insert_new_append mapped_snoc x)
  finally show ?case .
qed

lemma mapDict_mapped:
  "obj_wf m \<Longrightarrow> no_proto_key (objKeys m) \<Longrightarrow> mapDict m fn = mapped m fn"
  using mapDict_prefix [of m "[]" fn] by (simp add: mapDict_def)

lemma mapped_unary:
  "mapped m (unary f) = map (\<lambda>(k, v). (k, f v)) (filter (\<lambda>(k, v). v \<noteq> Undefined) m)"
proof -
  have "mapped m (unary f) =
    map (\<lambda>(x, i). (\<lambda>(k, v). (k, f v)) x)
      (filter (\<lambda>(x, i). (\<lambda>(k, v). v \<noteq> Undefined) x) (zip m [0 ..< length m]))"
    by (simp add: mapped_def unary_def case_prod_unfold)
  then show ?thesis by (simp add: zip_filter_fst)
qed

lemma obj_wf_filter: "obj_wf m \<Longrightarrow> obj_wf (filter P m)"
  by (simp add: obj_wf_def objKeys_def key_ordered_map_filter distinct_map_filter)

lemma obj_wf_mapped: "obj_wf m \<Longrightarrow> obj_wf (mapped m fn)"
  using obj_wf_filter [of m "\<lambda>(k, v). v \<noteq> Undefined"]
  by (simp add: obj_wf_def objKeys_mapped)

lemma all_defined_filter: "all_defined m \<Longrightarrow> filter (\<lambda>(k, v). v \<noteq> Undefined) m = m"
  by (induction m) (auto simp: all_defined_def)

lemma all_defined_mapped:
  "all_defined m \<Longrightarrow> mapped m fn = map (\<lambda>((k, v), i). (k, fn v i)) (zip m [0 ..< length m])"
proof -
  assume "all_defined m"
  then have "\<forall>x\<in>set (zip m [0 ..< length m]). (\<lambda>((k, v), i). v \<noteq> Undefined) x"
    by (auto simp: all_defined_def list_all_iff dest!: set_zip_leftD)
  then have "filter (\<lambda>((k, v), i). v \<noteq> Undefined) (zip m [0 ..< length m]) = zip m [0 ..< length m]"
    by (simp only: filter_True)
  then show ?thesis by (simp add: mapped_def)
qed

lemma mapped_identity: "mapped m identity = filter (\<lambda>(k, v). v \<noteq> Undefined) m"
proof -
  have "identity = unary (\<lambda>v::'a maybe. v)"
    by (simp add: identity_def unary_def fun_eq_iff)
  then have "mapped m identity = mapped m (unary (\<lambda>v::'a maybe. v))"
    by simp
  then show ?thesis by (simp add: mapped_unary)
qed

lemma no_proto_key_mapped: "no_proto_key (objKeys m) \<Longrightarrow> no_proto_key (objKeys (mapped m fn))"
  using keys_mapped_subset [of m fn] by (auto simp: no_proto_key_def)

lemmas obj_eval =
  obj_wf_def objKeys_def no_proto_key_def goes_before_def is_array_index_def is_digit_def
  str_val_def digit_val_def

lemmas mapDict_eval =
  mapDict_def forEach_def mapDict_step_def dictGet_def objSet_def objKeys_def

section \<open>Claims on \<open>mapDict\<close>\<close>

text \<open>
  C5, as stated (the result has exactly the keys of \<open>m\<close>), fails: a key that holds
  \<^verbatim>\<open>undefined\<close> is skipped by the guard \<^verbatim>\<open>typeof currentItem !== "undefined"\<close>, and
  an own key \<^verbatim>\<open>__proto__\<close> of \<open>m\<close> (as \<^verbatim>\<open>JSON.parse\<close> makes one) is not created in
  the result.
\<close>

theorem mapDict_keys_counterexample:
  "objKeys (mapDict [(''a'', Undefined), (''b'', Defined (1::int))] identity)
     \<noteq> objKeys [(''a'', Undefined), (''b'', Defined (1::int))] \<and>
   objKeys (mapDict [(''__proto__'', Defined (1::int))] identity)
     \<noteq> objKeys [(''__proto__'', Defined (1::int))]"
  by (simp add: mapDict_eval identity_def)

text \<open>
  C5, as the code has it: for every dictionary \<open>m\<close> (without the key \<^verbatim>\<open>__proto__\<close>) and
  every \<open>fn\<close>, \<open>mapDict\<close> returns a new dictionary that holds exactly the keys of \<open>m\<close> whose
  value is not \<^verbatim>\<open>undefined\<close>, in the iteration order of \<open>m\<close>, each with \<open>fn\<close> of the
  original value and of the position of the key in \<^verbatim>\<open>Object.keys(m)\<close> (a position that
  counts the skipped keys too). When no key of \<open>m\<close> holds \<^verbatim>\<open>undefined\<close>, the keys and
  their order are those of \<open>m\<close>. The result is a function of \<open>m\<close> and \<open>fn\<close> alone.
\<close>

theorem mapDict_entries:
  "obj_wf m \<Longrightarrow> no_proto_key (objKeys m) \<Longrightarrow>
   mapDict m fn =
     map (\<lambda>((k, v), i). (k, fn v i))
       (filter (\<lambda>((k, v), i). v \<noteq> Undefined) (zip m [0 ..< length m])) \<and>
   (all_defined m \<longrightarrow>
      objKeys (mapDict m fn) = objKeys m \<and>
      (\<forall>i<length m. snd (mapDict m fn ! i) = fn (snd (m ! i)) i))"
proof (intro conjI impI)
  assume wf: "obj_wf m" and np: "no_proto_key (objKeys m)"
  then show "mapDict m fn =
     map (\<lambda>((k, v), i). (k, fn v i))
       (filter (\<lambda>((k, v), i). v \<noteq> Undefined) (zip m [0 ..< length m]))"
    by (simp add: mapDict_mapped mapped_def)
  assume ad: "all_defined m"
  from wf np ad show "objKeys (mapDict m fn) = objKeys m"
    by (simp add: mapDict_mapped objKeys_mapped all_defined_filter)
  from wf np ad
  have eq: "mapDict m fn = map (\<lambda>((k, v), i). (k, fn v i)) (zip m [0 ..< length m])"
    by (simp add: mapDict_mapped all_defined_mapped)
  show "\<forall>i<length m. snd (mapDict m fn ! i) = fn (snd (m ! i)) i"
    by (simp add: eq case_prod_unfold)
qed

theorem mapDict_entries_witness:
  "obj_wf [(''7'', Defined (456::int)), (''a'', Undefined), (''b'', Defined 123)] \<and>
   no_proto_key (objKeys [(''7'', Defined (456::int)), (''a'', Undefined), (''b'', Defined 123)]) \<and>
   mapDict [(''7'', Defined (456::int)), (''a'', Undefined), (''b'', Defined 123)]
     (\<lambda>v i. Defined (v, i)) = [(''7'', Defined (Defined 456, 0)), (''b'', Defined (Defined 123, 2))] \<and>
   obj_wf [(''a'', Defined (456::int)), (''b'', Defined 123)] \<and>
   no_proto_key (objKeys [(''a'', Defined (456::int)), (''b'', Defined 123)]) \<and>
   all_defined [(''a'', Defined (456::int)), (''b'', Defined 123)] \<and>
   objKeys (mapDict [(''a'', Defined (456::int)), (''b'', Defined 123)] (\<lambda>v i. Defined (v, i)))
     = [''a'', ''b''] \<and>
   snd (mapDict [(''a'', Defined (456::int)), (''b'', Defined 123)] (\<lambda>v i. Defined (v, i)) ! 1)
     = Defined (Defined 123, 1)"
  using mapDict_entries
    [of "[(''7'', Defined (456::int)), (''a'', Undefined), (''b'', Defined 123)]"
        "\<lambda>v i. Defined (v, i)"]
    mapDict_entries
    [of "[(''a'', Defined (456::int)), (''b'', Defined 123)]" "\<lambda>v i. Defined (v, i)"]
  by (simp add: obj_eval all_defined_def)

text \<open>
  C6, as stated (mapping the identity gives back the keys, order and values of \<open>m\<close>),
  fails on a dictionary with a key that holds \<^verbatim>\<open>undefined\<close>, and on one with the own
  key \<^verbatim>\<open>__proto__\<close>: the key is dropped.
\<close>

theorem mapDict_identity_counterexample:
  "mapDict [(''a'', Undefined :: nat maybe)] identity \<noteq> [(''a'', Undefined)] \<and>
   mapDict [(''__proto__'', Defined (1::nat))] identity \<noteq> [(''__proto__'', Defined 1)]"
  by (simp add: mapDict_eval identity_def)

text \<open>
  C6, as the code has it: for every dictionary \<open>m\<close> (without the key \<^verbatim>\<open>__proto__\<close>),
  mapping the identity gives \<open>m\<close> without the keys that hold \<^verbatim>\<open>undefined\<close>, the other
  keys, their order and their values unchanged; it gives \<open>m\<close> itself when no key holds
  \<^verbatim>\<open>undefined\<close>.
\<close>

theorem mapDict_identity:
  "obj_wf m \<Longrightarrow> no_proto_key (objKeys m) \<Longrightarrow>
   mapDict m identity = filter (\<lambda>(k, v). v \<noteq> Undefined) m \<and>
   (all_defined m \<longrightarrow> mapDict m identity = m)"
  by (simp add: mapDict_mapped mapped_identity all_defined_filter)

theorem mapDict_identity_witness:
  "obj_wf [(''a'', Defined ''a''), (''b'', Defined ''b'')] \<and>
   no_proto_key (objKeys [(''a'', Defined ''a''), (''b'', Defined ''b'')]) \<and>
   all_defined [(''a'', Defined ''a''), (''b'', Defined ''b'')] \<and>
   mapDict [(''a'', Defined ''a''), (''b'', Defined ''b'')] identity =
     [(''a'', Defined ''a''), (''b'', Defined ''b'')]"
  using mapDict_identity [of "[(''a'', Defined ''a''), (''b'', Defined ''b'')]"]
  by (simp add: obj_eval all_defined_def)

text \<open>
  C7, as stated (for all pure \<open>f\<close> and \<open>g\<close>), fails when \<open>f\<close> returns \<^verbatim>\<open>undefined\<close>: the
  first pass stores \<^verbatim>\<open>undefined\<close> under the key, the second pass skips the key, and the
  single pass with the composition keeps it.
\<close>

theorem mapDict_compose_counterexample:
  "mapDict (mapDict [(''a'', Defined (0::nat))] (unary (to_undefined :: nat maybe \<Rightarrow> nat maybe)))
     (unary to_one)
   \<noteq> mapDict [(''a'', Defined (0::nat))] (unary (to_one \<circ> (to_undefined :: nat maybe \<Rightarrow> nat maybe)))"
  by (simp add: mapDict_eval unary_def to_undefined_def to_one_def)

text \<open>
  C7, as the code has it: for every dictionary \<open>m\<close> (without the key \<^verbatim>\<open>__proto__\<close>), every
  pure \<open>f\<close> that returns a defined value on each defined value stored in \<open>m\<close>, and every
  pure \<open>g\<close>, mapping \<open>f\<close> and then \<open>g\<close> equals mapping the composition once.
\<close>

theorem mapDict_compose:
  assumes wf: "obj_wf m" and np: "no_proto_key (objKeys m)"
    and f: "list_all (\<lambda>(k, v). v \<noteq> Undefined \<longrightarrow> f v \<noteq> Undefined) m"
  shows "mapDict (mapDict m (unary f)) (unary g) = mapDict m (unary (g \<circ> f))"
proof -
  let ?D = "\<lambda>(k :: string, v). v \<noteq> Undefined"
  let ?F = "\<lambda>(k :: string, v). (k, f v)"
  have keep: "filter ?D (map ?F (filter ?D m)) = map ?F (filter ?D m)"
    using f by (induction m) auto
  have "mapDict (mapDict m (unary f)) (unary g) = mapped (mapped m (unary f)) (unary g)"
    using wf np by (simp add: mapDict_mapped obj_wf_mapped no_proto_key_mapped)
  also have "\<dots> = map (\<lambda>(k, v). (k, g v)) (filter ?D (map ?F (filter ?D m)))"
    by (simp only: mapped_unary)
  also have "\<dots> = map (\<lambda>(k, v). (k, (g \<circ> f) v)) (filter ?D m)"
    by (subst keep) (simp add: case_prod_unfold)
  also have "\<dots> = mapped m (unary (g \<circ> f))"
    by (simp only: mapped_unary)
  also have "\<dots> = mapDict m (unary (g \<circ> f))"
    using wf np by (simp add: mapDict_mapped)
  finally show ?thesis .
qed

theorem mapDict_compose_witness:
  "obj_wf [(''a'', Defined (456::int)), (''u'', Undefined), (''b'', Defined 123)] \<and>
   no_proto_key (objKeys [(''a'', Defined (456::int)), (''u'', Undefined), (''b'', Defined 123)]) \<and>
   list_all (\<lambda>(k, v). v \<noteq> Undefined \<longrightarrow> Defined [v] \<noteq> Undefined)
     [(''a'', Defined (456::int)), (''u'', Undefined), (''b'', Defined 123)] \<and>
   mapDict (mapDict [(''a'', Defined (456::int)), (''u'', Undefined), (''b'', Defined 123)]
      (unary (\<lambda>v. Defined [v]))) (unary (\<lambda>v. Defined (v, v)))
     = mapDict [(''a'', Defined (456::int)), (''u'', Undefined), (''b'', Defined 123)]
         (unary ((\<lambda>v. Defined (v, v)) \<circ> (\<lambda>v. Defined [v])))"
  using mapDict_compose
    [of "[(''a'', Defined (456::int)), (''u'', Undefined), (''b'', Defined 123)]"
        "\<lambda>v. Defined [v]" "\<lambda>v. Defined (v, v)"]
  by (simp add: obj_eval)

section \<open>Properties of \<open>arrayToDict\<close>\<close>

lemma fold_zip_ignore:
  "length xs = length ys \<Longrightarrow> fold (\<lambda>(x, i). g x) (zip xs ys) s = fold g xs s"
  by (induction xs ys arbitrary: s rule: list_induct2) auto

lemma arrayToDict_fold:
  "arrayToDict array = fold (\<lambda>val out. objSet out (id' val) val) array []"
  by (simp add: arrayToDict_def forEach_def fold_zip_ignore)

lemma arrayToDict_snoc:
  "arrayToDict (xs @ [x]) = objSet (arrayToDict xs) (id' x) x"
  by (simp add: arrayToDict_fold)

lemma obj_wf_arrayToDict: "obj_wf (arrayToDict xs)"
  by (induction xs rule: rev_induct)
     (simp_all add: arrayToDict_snoc obj_wf_objSet, simp add: arrayToDict_fold obj_wf_def objKeys_def)

lemma objKeys_arrayToDict:
  "no_proto_key (map id' xs) \<Longrightarrow> set (objKeys (arrayToDict xs)) = id' ` set xs"
proof (induction xs rule: rev_induct)
  case Nil
  show ?case by (simp add: arrayToDict_fold objKeys_def)
next
  case (snoc x xs)
  then show ?case
    by (auto simp: arrayToDict_snoc objKeys_objSet no_proto_key_def)
qed

lemma map_of_arrayToDict:
  "no_proto_key (map id' xs) \<Longrightarrow>
   map_of (arrayToDict xs) k =
     (if k \<in> id' ` set xs then Some (last (filter (\<lambda>x. id' x = k) xs)) else None)"
proof (induction xs rule: rev_induct)
  case Nil
  show ?case by (simp add: arrayToDict_fold)
next
  case (snoc x xs)
  then have IH: "map_of (arrayToDict xs) k =
     (if k \<in> id' ` set xs then Some (last (filter (\<lambda>x. id' x = k) xs)) else None)"
    and x: "id' x \<noteq> ''__proto__''"
    by (auto simp: no_proto_key_def)
  have nonempty: "filter (\<lambda>x. id' x = k) xs \<noteq> []" if "k \<in> id' ` set xs"
    using that by (auto simp: filter_empty_conv)
  show ?case
    using IH nonempty by (auto simp: arrayToDict_snoc map_of_objSet [OF x])
qed

section \<open>The store\<close>

lemma heap_get_old:
  "r < length h \<Longrightarrow> h ! r = ObjCell m \<Longrightarrow> heap_get (h @ [c]) r k = dictGet m k"
  by (simp add: heap_get_def nth_append)

lemma heap_set_new:
  "heap_set (h @ [ObjCell ob]) (length h) k v = h @ [ObjCell (objSet ob k v)]"
  by (simp add: heap_set_def)

lemma heap_elems_old:
  "r < length h \<Longrightarrow> h ! r = ArrCell xs \<Longrightarrow> heap_elems (h @ [c]) r = xs"
  by (simp add: heap_elems_def nth_append)

lemma mapDict_heap_step_new:
  assumes "dict < length h" and "h ! dict = ObjCell m"
  shows "mapDict_heap_step dict (length h) fn p (h @ [ObjCell ob])
         = h @ [ObjCell (mapDict_step m fn p ob)]"
  using assms
  by (cases p) (simp add: mapDict_heap_step_def mapDict_step_def heap_get_old heap_set_new Let_def)

lemma mapDict_heap_loop:
  assumes "dict < length h" and "h ! dict = ObjCell m"
  shows "fold (mapDict_heap_step dict (length h) fn) ps (h @ [ObjCell ob])
         = h @ [ObjCell (fold (mapDict_step m fn) ps ob)]"
  by (induction ps arbitrary: ob) (simp_all add: mapDict_heap_step_new [OF assms])

lemma mapDict_heap_eq:
  assumes "dict < length h" and "h ! dict = ObjCell m"
  shows "mapDict_heap h dict fn = (h @ [ObjCell (mapDict m fn)], length h)"
proof -
  have keys: "heap_keys (h @ [ObjCell []]) dict = objKeys m"
    using assms by (simp add: heap_keys_def nth_append)
  show ?thesis
    by (simp add: mapDict_heap_def new_object_def keys forEach_def mapDict_def
        mapDict_heap_loop [OF assms])
qed

lemma arrayToDict_heap_step_new:
  assumes "array < length h" and "h ! array = ArrCell xs"
  shows "arrayToDict_heap_step array (length h) (i, idx) (h @ [ObjCell ob])
         = h @ [ObjCell (objSet ob (id' (xs ! i)) (xs ! i))]"
  using assms by (simp add: arrayToDict_heap_step_def heap_elems_old heap_set_new Let_def)

lemma arrayToDict_heap_loop:
  assumes "array < length h" and "h ! array = ArrCell xs"
  shows "fold (arrayToDict_heap_step array (length h)) ps (h @ [ObjCell ob])
         = h @ [ObjCell (fold (\<lambda>(i, idx) out. objSet out (id' (xs ! i)) (xs ! i)) ps ob)]"
proof (induction ps arbitrary: ob)
  case Nil
  show ?case by simp
next
  case (Cons p ps)
  obtain i j where p: "p = (i, j)" by (cases p)
  show ?case
    by (simp add: p Cons.IH arrayToDict_heap_step_new [OF assms])
qed

lemma fold_nth:
  "fold (\<lambda>i out. g (xs ! i) out) [0 ..< length xs] s = fold g xs s"
proof -
  have "fold g (map (\<lambda>i. xs ! i) [0 ..< length xs]) s = fold g xs s"
    by (simp only: map_nth)
  then show ?thesis by (simp add: fold_map comp_def)
qed

lemma arrayToDict_heap_eq:
  assumes "array < length h" and "h ! array = ArrCell xs"
  shows "arrayToDict_heap h array = (h @ [ObjCell (arrayToDict xs)], length h)"
proof -
  have elems: "heap_elems (h @ [ObjCell []]) array = xs"
    using assms by (rule heap_elems_old)
  have "fold (\<lambda>(i, idx) out. objSet out (id' (xs ! i)) (xs ! i))
          (zip [0 ..< length xs] [0 ..< length [0 ..< length xs]]) []
        = fold (\<lambda>i out. objSet out (id' (xs ! i)) (xs ! i)) [0 ..< length xs] []"
    by (rule fold_zip_ignore) simp
  also have "\<dots> = arrayToDict xs"
    by (simp add: fold_nth [of "\<lambda>val out. objSet out (id' val) val"] arrayToDict_fold)
  finally have pure: "fold (\<lambda>(i, idx) out. objSet out (id' (xs ! i)) (xs ! i))
          (zip [0 ..< length xs] [0 ..< length [0 ..< length xs]]) [] = arrayToDict xs" .
  show ?thesis
    by (simp only: arrayToDict_heap_def new_object_def elems forEach_def split_conv Let_def
        arrayToDict_heap_loop [OF assms] pure)
qed

section \<open>Properties of \<open>resolveOrTimeout\<close>\<close>

lemmas race_defs = resolve_def reject_def clearTimeout_def

lemma run_Nil: "run [] s = s"
  by (simp add: run_def)

lemma run_Cons: "run (ev # evs) s = run evs (step s ev)"
  by (simp add: run_def)

lemma run_append: "run (evs @ evs') s = run evs' (run evs s)"
  by (simp add: run_def)

lemma step_result_settled: "result s \<noteq> Pending \<Longrightarrow> result (step s ev) = result s"
  by (cases "(s, ev)" rule: step.cases) (auto simp: race_defs split: computation.splits)

lemma step_task_final: "task s \<noteq> Scheduled \<Longrightarrow> task (step s ev) = task s"
  by (cases "(s, ev)" rule: step.cases) (auto simp: race_defs split: computation.splits)

lemma run_result_settled: "result s \<noteq> Pending \<Longrightarrow> result (run evs s) = result s"
  by (induction evs arbitrary: s) (simp_all add: run_Nil run_Cons step_result_settled)

lemma run_task_final: "task s \<noteq> Scheduled \<Longrightarrow> task (run evs s) = task s"
  by (induction evs arbitrary: s) (simp_all add: run_Nil run_Cons step_task_final)

lemma transitions_settled: "result s \<noteq> Pending \<Longrightarrow> transitions s evs = 0"
  by (induction evs arbitrary: s) (simp_all add: step_result_settled)

lemma step_leaves_pending: "result (step s ev) \<noteq> result s \<Longrightarrow> result (step s ev) \<noteq> Pending"
  by (cases "(s, ev)" rule: step.cases)
     (auto simp: race_defs split: if_splits computation.splits)

lemma transitions_count:
  "transitions s evs = (if result (run evs s) \<noteq> result s then 1 else 0)"
proof (induction evs arbitrary: s)
  case Nil
  show ?case by (simp add: run_Nil)
next
  case (Cons ev evs)
  show ?case
  proof (cases "result (step s ev) = result s")
    case True
    then show ?thesis by (simp add: Cons.IH run_Cons)
  next
    case False
    then have settled: "result (step s ev) \<noteq> Pending" by (rule step_leaves_pending)
    with False show ?thesis
      by (simp add: transitions_settled run_Cons run_result_settled)
  qed
qed

lemma step_fulfilled_first:
  "step (resolveOrTimeout (Fulfils val) timeout) PromiseSettled =
     \<lparr>promise = Fulfils val, settled = True, task = Cleared, delay = timeout,
      result = Resolved val, chained = Resolved ()\<rparr>"
  by (simp add: resolveOrTimeout_def race_defs)

lemma step_failed_first:
  "step (resolveOrTimeout (Fails r) timeout) PromiseSettled =
     \<lparr>promise = Fails r, settled = True, task = Scheduled, delay = timeout, result = Pending,
      chained = Rejected r\<rparr>"
  by (simp add: resolveOrTimeout_def)

lemma step_timer_first:
  "step (resolveOrTimeout p timeout) TimerFired =
     \<lparr>promise = p, settled = False, task = Fired, delay = timeout,
      result = Rejected (Str ''time up!''), chained = Pending\<rparr>"
  by (simp add: resolveOrTimeout_def race_defs)

lemma run_fulfilled_first:
  "result (run (PromiseSettled # evs) (resolveOrTimeout (Fulfils val) timeout)) = Resolved val"
  "task (run (PromiseSettled # evs) (resolveOrTimeout (Fulfils val) timeout)) = Cleared"
  by (simp_all add: run_Cons step_fulfilled_first run_result_settled run_task_final
      del: step.simps)

lemma run_timer_first:
  "result (run (TimerFired # evs) (resolveOrTimeout p timeout)) = Rejected (Str ''time up!'')"
  "task (run (TimerFired # evs) (resolveOrTimeout p timeout)) = Fired"
  by (simp_all add: run_Cons step_timer_first run_result_settled run_task_final
      del: step.simps)

lemma run_after_failure:
  assumes "settled s" and "task s = Scheduled" and "result s = Pending"
  shows "result (run evs s) = (if TimerFired \<in> set evs then Rejected (Str ''time up!'') else Pending)"
    and "task (run evs s) = (if TimerFired \<in> set evs then Fired else Scheduled)"
  using assms
proof (induction evs arbitrary: s)
  case Nil
  { case 1 then show ?case by (simp add: run_Nil) }
  { case 2 then show ?case by (simp add: run_Nil) }
next
  case (Cons ev evs)
  { case 1
    show ?case
    proof (cases ev)
      case PromiseSettled
      with 1 have "step s ev = s" by simp
      with 1 Cons.IH(1) [of s] PromiseSettled show ?thesis by (simp add: run_Cons)
    next
      case TimerFired
      with 1 show ?thesis by (simp add: run_Cons run_result_settled race_defs)
    qed }
  { case 2
    show ?case
    proof (cases ev)
      case PromiseSettled
      with 2 have "step s ev = s" by simp
      with 2 Cons.IH(2) [of s] PromiseSettled show ?thesis by (simp add: run_Cons)
    next
      case TimerFired
      with 2 show ?thesis by (simp add: run_Cons run_task_final race_defs)
    qed }
qed

lemma run_failed_first:
  "result (run (PromiseSettled # evs) (resolveOrTimeout (Fails r) timeout)) =
     (if TimerFired \<in> set evs then Rejected (Str ''time up!'') else Pending)"
  "task (run (PromiseSettled # evs) (resolveOrTimeout (Fails r) timeout)) =
     (if TimerFired \<in> set evs then Fired else Scheduled)"
  by (simp_all add: run_Cons step_failed_first run_after_failure del: step.simps)

lemma step_settled: "settled s \<Longrightarrow> settled (step s ev) \<and> chained (step s ev) = chained s"
  by (cases "(s, ev)" rule: step.cases) (auto simp: race_defs)

lemma run_chained_settled: "settled s \<Longrightarrow> chained (run evs s) = chained s"
  by (induction evs arbitrary: s) (simp_all add: run_Nil run_Cons step_settled del: step.simps)

lemma step_timer_keeps:
  "promise (step s TimerFired) = promise s \<and> settled (step s TimerFired) = settled s \<and>
   chained (step s TimerFired) = chained s"
  by (simp add: race_defs)

lemma run_chained:
  assumes "\<not> settled s" and "chained s = Pending"
  shows "chained (run evs s) =
     (if PromiseSettled \<in> set evs
      then (case promise s of Fulfils val \<Rightarrow> Resolved () | Fails r \<Rightarrow> Rejected r | Never \<Rightarrow> Pending)
      else Pending)"
  using assms
proof (induction evs arbitrary: s)
  case Nil
  then show ?case by (simp add: run_Nil)
next
  case (Cons ev evs)
  show ?case
  proof (cases ev)
    case TimerFired
    with Cons.prems Cons.IH [of "step s TimerFired"] show ?thesis
      by (simp only: run_Cons step_timer_keeps) simp
  next
    case PromiseSettled
    show ?thesis
    proof (cases "promise s")
      case Never
      with Cons.prems PromiseSettled have "step s ev = s" by simp
      with Cons.prems Cons.IH [of s] PromiseSettled Never show ?thesis
        by (simp add: run_Cons del: step.simps)
    next
      case (Fulfils val)
      with Cons.prems PromiseSettled
      have "settled (step s ev)" and "chained (step s ev) = Resolved ()"
        by (simp_all add: race_defs)
      with PromiseSettled Fulfils show ?thesis
        by (simp add: run_Cons run_chained_settled del: step.simps)
    next
      case (Fails r)
      with Cons.prems PromiseSettled
      have "settled (step s ev)" and "chained (step s ev) = Rejected r"
        by simp_all
      with PromiseSettled Fails show ?thesis
        by (simp add: run_Cons run_chained_settled del: step.simps)
    qed
  qed
qed

lemma run_timer_first_chained:
  "chained (run (TimerFired # evs) (resolveOrTimeout p timeout)) =
     (if PromiseSettled \<in> set evs
      then (case p of Fulfils val \<Rightarrow> Resolved () | Fails r \<Rightarrow> Rejected r | Never \<Rightarrow> Pending)
      else Pending)"
  by (simp add: run_Cons step_timer_first run_chained del: step.simps)

section \<open>Claims on the store, \<open>reduceDict\<close> and \<open>arrayToDict\<close>\<close>

text \<open>
  C8: for every store, every dictionary \<open>m\<close> in it and every mapping function \<open>fn\<close>,
  \<open>mapDict\<close> does not mutate the receiver: after the call the cell of \<open>m\<close> holds the keys,
  values and order it held before, as does every other cell that existed; the result is a
  new cell, and it holds what \<open>mapDict\<close> computes from \<open>m\<close> and \<open>fn\<close> alone.
\<close>

theorem mapDict_heap_frame:
  assumes "dict < length h" and "h ! dict = ObjCell m"
  shows "(case mapDict_heap h dict fn of
            (h', out) \<Rightarrow>
              h' ! dict = ObjCell m \<and> take (length h) h' = h \<and> length h' = Suc (length h) \<and>
              out = length h \<and> h' ! out = ObjCell (mapDict m fn))"
  using assms by (simp add: mapDict_heap_eq nth_append)

theorem mapDict_heap_frame_witness:
  "(0::nat) < length [ObjCell [(''a'', Defined (456::int)), (''b'', Undefined)]] \<and>
   [ObjCell [(''a'', Defined (456::int)), (''b'', Undefined)]] ! 0
     = ObjCell [(''a'', Defined 456), (''b'', Undefined)] \<and>
   mapDict_heap [ObjCell [(''a'', Defined (456::int)), (''b'', Undefined)]] 0 (\<lambda>v i. Defined 1)
     = ([ObjCell [(''a'', Defined 456), (''b'', Undefined)], ObjCell [(''a'', Defined 1)]], 1)"
  using mapDict_heap_frame
    [of 0 "[ObjCell [(''a'', Defined (456::int)), (''b'', Undefined)]]"
        "[(''a'', Defined 456), (''b'', Undefined)]" "\<lambda>v i. Defined 1"]
  by (simp add: mapDict_heap_def new_object_def heap_keys_def forEach_def mapDict_heap_step_def
      heap_get_def heap_set_def dictGet_def objSet_def objKeys_def)

text \<open>
  C9 says that \<open>reduceDict\<close> folds the accumulator function over the entries, each entry
  once, and returns the final accumulator. The code is an empty function under the comment
  \<^verbatim>\<open>Array.prototype.reduce, but for Dict\<close>: called on \<^verbatim>\<open>{ a: 1, b: 2 }\<close>, the sum
  and \<open>0\<close>, it returns \<^verbatim>\<open>undefined\<close>, where the fold of the specification gives \<open>3\<close>.
\<close>

theorem reduceDict_returns_undefined:
  "reduceDict ([(''a'', 1::nat), (''b'', 2)], (\<lambda>(acc::nat) (v::nat) (k::string). acc + v), 0::nat)
     = (Undefined :: nat maybe) \<and>
   reduce_spec (\<lambda>(acc::nat) (v::nat) (k::string). acc + v) 0 [(''a'', 1::nat), (''b'', 2)] = 3"
  by (simp add: reduceDict_def reduce_spec_def)

text \<open>
  C10, as stated (the keys of the result are exactly the \<^verbatim>\<open>id\<close> values of the array),
  fails on \<^verbatim>\<open>[{ id: "__proto__" }]\<close>: the assignment \<^verbatim>\<open>out[val.id] = val\<close> runs the
  setter of \<^verbatim>\<open>Object.prototype\<close>, and the result has no key at all.
\<close>

theorem arrayToDict_proto_key_counterexample:
  "set (objKeys (arrayToDict [\<lparr>id' = ''__proto__''\<rparr>])) \<noteq> id' ` set [\<lparr>id' = ''__proto__''\<rparr>]"
  by (simp add: arrayToDict_def forEach_def objSet_def objKeys_def)

text \<open>
  C10, as the code has it: for every array of records with a string \<^verbatim>\<open>id\<close>, none of them
  \<^verbatim>\<open>__proto__\<close>, \<open>arrayToDict\<close> returns a new dictionary whose keys are exactly the
  \<^verbatim>\<open>id\<close> values of the array; a key maps to the last element of the array with that
  \<^verbatim>\<open>id\<close>; the array, like every cell that existed before the call, is unchanged.
\<close>

theorem arrayToDict_result:
  assumes "array < length h" and "h ! array = ArrCell xs" and "no_proto_key (map id' xs)"
  shows "(case arrayToDict_heap h array of
            (h', out) \<Rightarrow>
              h' ! array = ArrCell xs \<and> take (length h) h' = h \<and> out = length h \<and>
              h' ! out = ObjCell (arrayToDict xs)) \<and>
         obj_wf (arrayToDict xs) \<and>
         set (objKeys (arrayToDict xs)) = id' ` set xs \<and>
         (\<forall>x\<in>set xs.
            map_of (arrayToDict xs) (id' x) = Some (last (filter (\<lambda>y. id' y = id' x) xs)))"
  using assms
  by (simp add: arrayToDict_heap_eq nth_append obj_wf_arrayToDict objKeys_arrayToDict
      map_of_arrayToDict)

theorem arrayToDict_result_witness:
  "(0::nat) < length [ArrCell [\<lparr>id' = ''a'', \<dots> = ''first''\<rparr>, \<lparr>id' = ''b'', \<dots> = ''second''\<rparr>,
                               \<lparr>id' = ''a'', \<dots> = ''third''\<rparr>]] \<and>
   no_proto_key (map id' [\<lparr>id' = ''a'', \<dots> = ''first''\<rparr>, \<lparr>id' = ''b'', \<dots> = ''second''\<rparr>,
                          \<lparr>id' = ''a'', \<dots> = ''third''\<rparr>]) \<and>
   arrayToDict_heap [ArrCell [\<lparr>id' = ''a'', \<dots> = ''first''\<rparr>, \<lparr>id' = ''b'', \<dots> = ''second''\<rparr>,
                              \<lparr>id' = ''a'', \<dots> = ''third''\<rparr>]] 0
   = ([ArrCell [\<lparr>id' = ''a'', \<dots> = ''first''\<rparr>, \<lparr>id' = ''b'', \<dots> = ''second''\<rparr>,
                \<lparr>id' = ''a'', \<dots> = ''third''\<rparr>],
       ObjCell [(''a'', \<lparr>id' = ''a'', \<dots> = ''third''\<rparr>), (''b'', \<lparr>id' = ''b'', \<dots> = ''second''\<rparr>)]],
      1) \<and>
   map_of (arrayToDict [\<lparr>id' = ''a'', \<dots> = ''first''\<rparr>, \<lparr>id' = ''b'', \<dots> = ''second''\<rparr>,
                        \<lparr>id' = ''a'', \<dots> = ''third''\<rparr>]) ''a''
   = Some \<lparr>id' = ''a'', \<dots> = ''third''\<rparr>"
  using arrayToDict_result
    [of 0 "[ArrCell [\<lparr>id' = ''a'', \<dots> = ''first''\<rparr>, \<lparr>id' = ''b'', \<dots> = ''second''\<rparr>,
                     \<lparr>id' = ''a'', \<dots> = ''third''\<rparr>]]"
        "[\<lparr>id' = ''a'', \<dots> = ''first''\<rparr>, \<lparr>id' = ''b'', \<dots> = ''second''\<rparr>,
          \<lparr>id' = ''a'', \<dots> = ''third''\<rparr>]"]
  by (simp add: arrayToDict_heap_def new_object_def heap_elems_def forEach_def
      arrayToDict_heap_step_def heap_set_def arrayToDict_def objSet_def objKeys_def
      no_proto_key_def goes_before_def is_array_index_def is_digit_def Let_def)

section \<open>Claims on \<open>resolveOrTimeout\<close>\<close>

text \<open>
  C1, as stated (a failure of the computation is propagated with its cause and the timer is
  cancelled), fails: the code registers a reaction for fulfilment only. When the computation
  fails first, the returned promise stays pending, the timer stays scheduled, and the
  returned promise is rejected with \<^verbatim>\<open>"time up!"\<close> when the timer fires.
\<close>

theorem failure_not_propagated_counterexample:
  "result (run [PromiseSettled] (resolveOrTimeout (Fails (Err (0::nat)) :: (string, nat) computation) 3000))
     \<noteq> Rejected (Err 0) \<and>
   task (run [PromiseSettled] (resolveOrTimeout (Fails (Err (0::nat)) :: (string, nat) computation) 3000))
     \<noteq> Cleared \<and>
   result (run [PromiseSettled, TimerFired]
       (resolveOrTimeout (Fails (Err (0::nat)) :: (string, nat) computation) 3000))
     = Rejected (Str ''time up!'')"
  by (simp add: run_def resolveOrTimeout_def race_defs)

text \<open>
  C1, as the code has it: for every timeout and every run in which the computation is
  fulfilled with \<open>val\<close> before the timer fires, the timer is cancelled and the returned
  promise is resolved with \<open>val\<close>, whatever happens afterwards. A failure of the computation
  is not propagated: after it the returned promise is pending until the timer fires, and
  rejected with \<^verbatim>\<open>"time up!"\<close> from then on.
\<close>

theorem fulfilment_propagated:
  "result (run (PromiseSettled # evs) (resolveOrTimeout (Fulfils val :: ('a, 'e) computation) timeout))
     = Resolved val \<and>
   task (run (PromiseSettled # evs) (resolveOrTimeout (Fulfils val :: ('a, 'e) computation) timeout))
     = Cleared \<and>
   result (run (PromiseSettled # evs) (resolveOrTimeout (Fails r :: ('a, 'e) computation) timeout))
     = (if TimerFired \<in> set evs then Rejected (Str ''time up!'') else Pending)"
  by (simp only: run_fulfilled_first run_failed_first simp_thms)

theorem fulfilment_propagated_witness:
  "result (run [PromiseSettled, TimerFired]
      (resolveOrTimeout (Fulfils ''done'' :: (string, nat) computation) 500)) = Resolved ''done'' \<and>
   task (run [PromiseSettled, TimerFired]
      (resolveOrTimeout (Fulfils ''done'' :: (string, nat) computation) 500)) = Cleared"
  using fulfilment_propagated [of "[TimerFired]" "''done''" 500 "Err (0::nat)"]
  by simp

text \<open>
  C2, as stated (after the timer has fired, whatever the computation produces has no
  observable effect), fails when the computation fails afterwards: the promise that
  \<^verbatim>\<open>promise.then\<close> returned, which has no handler, is rejected, and the host reports an
  unhandled rejection.
\<close>

theorem late_failure_unhandled_counterexample:
  "unhandled (run [TimerFired, PromiseSettled]
      (resolveOrTimeout (Fails (Err (0::nat)) :: (string, nat) computation) 100)) \<and>
   chained (run [TimerFired, PromiseSettled]
      (resolveOrTimeout (Fails (Err (0::nat)) :: (string, nat) computation) 100))
     \<noteq> chained (run [TimerFired]
      (resolveOrTimeout (Fails (Err (0::nat)) :: (string, nat) computation) 100))"
  by (simp add: run_def resolveOrTimeout_def race_defs unhandled_def)

text \<open>
  C2, as the code has it: for every computation, every timeout and every run in which the
  timer fires before the computation settles, the returned promise is rejected with the
  timeout failure \<^verbatim>\<open>"time up!"\<close> and keeps that rejection whatever the computation produces
  afterwards: the timer stays fired and the returned promise has changed state exactly
  once. A later fulfilment of the computation has no effect beyond fulfilling the dropped
  promise of \<^verbatim>\<open>promise.then\<close>; a later failure rejects that promise with the reason of the
  computation, an unhandled rejection, and there is an unhandled rejection in no other
  case.
\<close>

theorem timer_first_rejects:
  "result (run (TimerFired # evs) (resolveOrTimeout p timeout)) = Rejected (Str ''time up!'') \<and>
   task (run (TimerFired # evs) (resolveOrTimeout p timeout)) = Fired \<and>
   transitions (resolveOrTimeout p timeout) (TimerFired # evs) = 1 \<and>
   chained (run (TimerFired # evs) (resolveOrTimeout p timeout)) =
     (if PromiseSettled \<in> set evs
      then (case p of Fulfils val \<Rightarrow> Resolved () | Fails r \<Rightarrow> Rejected r | Never \<Rightarrow> Pending)
      else Pending) \<and>
   unhandled (run (TimerFired # evs) (resolveOrTimeout p timeout)) =
     (PromiseSettled \<in> set evs \<and> (case p of Fails r \<Rightarrow> True | Fulfils val \<Rightarrow> False | Never \<Rightarrow> False))"
proof -
  have "result (resolveOrTimeout p timeout) = Pending"
    by (simp add: resolveOrTimeout_def)
  then have one: "transitions (resolveOrTimeout p timeout) (TimerFired # evs) = 1"
    by (simp only: transitions_count run_timer_first) simp
  have un: "unhandled (run (TimerFired # evs) (resolveOrTimeout p timeout)) =
     (PromiseSettled \<in> set evs \<and> (case p of Fails r \<Rightarrow> True | Fulfils val \<Rightarrow> False | Never \<Rightarrow> False))"
    by (simp add: unhandled_def run_timer_first_chained split: computation.splits)
  from one un show ?thesis
    by (simp only: run_timer_first run_timer_first_chained simp_thms)
qed

theorem timer_first_rejects_witness:
  "result (run [TimerFired, PromiseSettled]
      (resolveOrTimeout (Fulfils ''done'' :: (string, nat) computation) 100))
     = Rejected (Str ''time up!'') \<and>
   transitions (resolveOrTimeout (Fulfils ''done'' :: (string, nat) computation) 100)
      [TimerFired, PromiseSettled] = 1 \<and>
   \<not> unhandled (run [TimerFired, PromiseSettled]
      (resolveOrTimeout (Fulfils ''done'' :: (string, nat) computation) 100)) \<and>
   chained (run [TimerFired, PromiseSettled]
      (resolveOrTimeout (Fails (Err 0) :: (string, nat) computation) 100)) = Rejected (Err 0)"
  using timer_first_rejects
    [of "[PromiseSettled]" "Fulfils ''done'' :: (string, nat) computation" 100]
    timer_first_rejects
    [of "[PromiseSettled]" "Fails (Err 0) :: (string, nat) computation" 100]
  by simp

text \<open>
  C3, as stated (the timer is cancelled whenever the computation settles first), fails when
  the computation settles with a failure: the timer stays scheduled, and its callback runs
  later.
\<close>

theorem timer_kept_on_failure_counterexample:
  "task (run [PromiseSettled] (resolveOrTimeout (Fails (Err (0::nat)) :: (string, nat) computation) 3000))
     \<noteq> Cleared \<and>
   task (run [PromiseSettled, TimerFired]
       (resolveOrTimeout (Fails (Err (0::nat)) :: (string, nat) computation) 3000)) = Fired"
  by (simp add: run_def resolveOrTimeout_def race_defs)

text \<open>
  C3, as the code has it: for every run in which the computation is fulfilled before the
  timer fires, the timer is cancelled at that point and stays cancelled, and a timer event
  after it runs no callback (it leaves the state as it is).
\<close>

theorem timer_cleared_on_fulfilment:
  "task (run (PromiseSettled # evs) (resolveOrTimeout (Fulfils val :: ('a, 'e) computation) timeout))
     = Cleared \<and>
   step (run (PromiseSettled # evs) (resolveOrTimeout (Fulfils val :: ('a, 'e) computation) timeout))
      TimerFired
     = run (PromiseSettled # evs) (resolveOrTimeout (Fulfils val) timeout)"
  by (simp add: run_fulfilled_first)

theorem timer_cleared_on_fulfilment_witness:
  "task (run [PromiseSettled, TimerFired]
      (resolveOrTimeout (Fulfils ''done'' :: (string, nat) computation) 500)) = Cleared"
  using timer_cleared_on_fulfilment
    [of "[TimerFired]" "''done''" 500, where ?'e = nat]
  by simp

text \<open>
  C4, as stated (exactly one terminal transition, chosen by the first of the two events),
  fails: a failure of the computation, observed first, causes no transition, and the
  transition taken later is the timeout, not \<open>Rejected\<close> with the cause.
\<close>

theorem first_signal_counterexample:
  "transitions (resolveOrTimeout (Fails (Err (0::nat)) :: (string, nat) computation) 3000)
      [PromiseSettled] \<noteq> 1 \<and>
   result (run [PromiseSettled, TimerFired]
       (resolveOrTimeout (Fails (Err (0::nat)) :: (string, nat) computation) 3000))
     \<noteq> first_signal (Fails (Err 0)) PromiseSettled"
  by (simp add: run_def resolveOrTimeout_def race_defs first_signal_def)

text \<open>
  C4, as the code has it: in every run the returned promise leaves \<open>Pending\<close> at most once,
  and exactly once whenever it leaves it at all; the terminal state is \<open>Resolved\<close> with the
  value when a fulfilment is observed first and the timeout rejection when the firing of
  the timer is observed first; a failure of the computation causes no transition, and after
  it the only transition left is the timeout.
\<close>

theorem single_transition:
  "transitions (resolveOrTimeout (p :: ('a, 'e) computation) timeout) evs \<le> 1 \<and>
   (transitions (resolveOrTimeout p timeout) evs = 1
      \<longleftrightarrow> result (run evs (resolveOrTimeout p timeout)) \<noteq> Pending) \<and>
   result (run (TimerFired # evs) (resolveOrTimeout p timeout)) = Rejected (Str ''time up!'') \<and>
   result (run (PromiseSettled # evs) (resolveOrTimeout (Fulfils val :: ('a, 'e) computation) timeout))
     = Resolved val \<and>
   result (run (PromiseSettled # evs) (resolveOrTimeout (Fails r :: ('a, 'e) computation) timeout))
     = (if TimerFired \<in> set evs then Rejected (Str ''time up!'') else Pending)"
proof -
  have "result (resolveOrTimeout p timeout) = Pending"
    by (simp add: resolveOrTimeout_def)
  then have "transitions (resolveOrTimeout p timeout) evs \<le> 1"
    and "transitions (resolveOrTimeout p timeout) evs = 1
      \<longleftrightarrow> result (run evs (resolveOrTimeout p timeout)) \<noteq> Pending"
    by (simp_all add: transitions_count)
  then show ?thesis
    by (simp only: run_fulfilled_first run_failed_first run_timer_first simp_thms)
qed

theorem single_transition_witness:
  "transitions (resolveOrTimeout (Fulfils ''done'' :: (string, nat) computation) 500)
      [PromiseSettled, TimerFired, PromiseSettled] = 1 \<and>
   result (run [PromiseSettled, PromiseSettled]
      (resolveOrTimeout (Fails (Err 0) :: (string, nat) computation) 500)) = Pending"
  using single_transition
    [of "Fulfils ''done'' :: (string, nat) computation" 500
        "[PromiseSettled, TimerFired, PromiseSettled]"]
    single_transition
    [of "Fails (Err 0) :: (string, nat) computation" 500 "[PromiseSettled]" "''x''" "Err (0::nat)"]
  by (simp add: run_def resolveOrTimeout_def race_defs)

end
